theory Spec2Isabelle
  imports Main
begin

section \<open>Text and character classes\<close>

text \<open>
  Both source files (the TypeScript action and the \<^verbatim>\<open>.mjs\<close> script) work on
  JavaScript strings. A string is modelled as a \<^typ>\<open>string\<close>, each \<^typ>\<open>char\<close>
  read as one code unit in the range U+0000 .. U+00FF. On that range the regular
  expression class \<^verbatim>\<open>\s\<close> and \<^verbatim>\<open>String.prototype.trim\<close> recognise TAB, LF, VT,
  FF, CR, SPACE and NBSP; the line terminators are LF and CR; \<^verbatim>\<open>\w\<close> is
  \<^verbatim>\<open>[A-Za-z0-9_]\<close>.
\<close>

definition is_space :: "char \<Rightarrow> bool" where
  "is_space c \<longleftrightarrow>
     c \<in> set [CHR 0x09, CHR 0x0A, CHR 0x0B, CHR 0x0C, CHR 0x0D, CHR 0x20, CHR 0xA0]"

definition is_line_terminator :: "char \<Rightarrow> bool" where
  "is_line_terminator c \<longleftrightarrow> c \<in> set [CHR 0x0A, CHR 0x0D]"

definition is_upper :: "char \<Rightarrow> bool" where
  "is_upper c \<longleftrightarrow> c \<in> set ''ABCDEFGHIJKLMNOPQRSTUVWXYZ''"

definition is_lower :: "char \<Rightarrow> bool" where
  "is_lower c \<longleftrightarrow> c \<in> set ''abcdefghijklmnopqrstuvwxyz''"

definition is_digit :: "char \<Rightarrow> bool" where
  "is_digit c \<longleftrightarrow> c \<in> set ''0123456789''"

definition is_word :: "char \<Rightarrow> bool" where
  "is_word c \<longleftrightarrow> is_upper c \<or> is_lower c \<or> is_digit c \<or> c = CHR ''_''"

text \<open>\<^verbatim>\<open>String.prototype.trim\<close>: white space and line terminators go from both ends.\<close>

definition trim :: "string \<Rightarrow> string" where
  "trim s = rev (dropWhile is_space (rev (dropWhile is_space s)))"

text \<open>\<^verbatim>\<open>String.prototype.endsWith("\n")\<close>.\<close>

definition ends_with_newline :: "string \<Rightarrow> bool" where
  "ends_with_newline s \<longleftrightarrow> s \<noteq> [] \<and> last s = CHR 0x0A"

text \<open>
  A request whose status is not a success throws \<^verbatim>\<open>new Error(`HTTP ${res.status} for ${url}`)\<close>;
  the error keeps the status and the end of the URL, after the part that the configuration
  of the run decides.
\<close>

datatype error = HttpError nat string

section \<open>Regular expressions with backtracking\<close>

text \<open>
  The rewriting is done by \<^verbatim>\<open>String.prototype.replace\<close> and \<^verbatim>\<open>match\<close> with regular
  expression literals. Their matching is modelled by a backtracking matcher that returns
  every way a pattern matches at a position, in the order in which the JavaScript matcher
  tries them, so that the head of the list is the match JavaScript reports: a greedy
  quantifier tries one more iteration before it tries to stop, an alternation tries its
  left side first, and an iteration of \<^verbatim>\<open>*\<close> that consumes nothing is rejected.

  A position is the character before it (if any) and the text from it on; the assertions
  \<^verbatim>\<open>^\<close>, \<^verbatim>\<open>$\<close> (both under the \<^verbatim>\<open>m\<close> flag) and \<^verbatim>\<open>\b\<close> look at these.
\<close>

datatype rx =
    Cls "char \<Rightarrow> bool"
  | Eps
  | Seq rx rx
  | Alt rx rx
  | Star rx
  | Bol
  | Eol
  | Wordb

type_synonym pos = "char option \<times> string"

definition at_bol :: "pos \<Rightarrow> bool" where
  "at_bol x = (case fst x of None \<Rightarrow> True | Some c \<Rightarrow> is_line_terminator c)"

definition at_eol :: "pos \<Rightarrow> bool" where
  "at_eol x = (case snd x of [] \<Rightarrow> True | c # s \<Rightarrow> is_line_terminator c)"

definition word_before :: "pos \<Rightarrow> bool" where
  "word_before x = (case fst x of None \<Rightarrow> False | Some c \<Rightarrow> is_word c)"

definition word_after :: "pos \<Rightarrow> bool" where
  "word_after x = (case snd x of [] \<Rightarrow> False | c # s \<Rightarrow> is_word c)"

definition at_wordb :: "pos \<Rightarrow> bool" where
  "at_wordb x \<longleftrightarrow> word_before x \<noteq> word_after x"

text \<open>
  Greedy iteration of a matcher \<open>f\<close>. The first argument bounds the number of iterations;
  every iteration consumes at least one character, so the length of the remaining text is
  a bound that is never reached.
\<close>

primrec star :: "nat \<Rightarrow> (pos \<Rightarrow> pos list) \<Rightarrow> pos \<Rightarrow> pos list" where
  "star 0 f x = [x]"
| "star (Suc n) f x =
     concat (map (star n f) (filter (\<lambda>y. length (snd y) < length (snd x)) (f x))) @ [x]"

primrec ms :: "rx \<Rightarrow> pos \<Rightarrow> pos list" where
  "ms (Cls P) x = (case snd x of [] \<Rightarrow> [] | c # s \<Rightarrow> if P c then [(Some c, s)] else [])"
| "ms Eps x = [x]"
| "ms (Seq a b) x = concat (map (ms b) (ms a x))"
| "ms (Alt a b) x = ms a x @ ms b x"
| "ms (Star a) x = star (length (snd x)) (ms a) x"
| "ms Bol x = (if at_bol x then [x] else [])"
| "ms Eol x = (if at_eol x then [x] else [])"
| "ms Wordb x = (if at_wordb x then [x] else [])"

text \<open>
  A pattern is a sequence of components. A match yields the text that each component
  consumed (the capture groups of the source's patterns are among the components) and the
  position after the match.
\<close>

definition consumed :: "pos \<Rightarrow> pos \<Rightarrow> string" where
  "consumed x y = take (length (snd x) - length (snd y)) (snd x)"

fun ms_groups :: "rx list \<Rightarrow> pos \<Rightarrow> (string list \<times> pos) list" where
  "ms_groups [] x = [([], x)]"
| "ms_groups (r # rs) x =
     concat (map (\<lambda>y. map (\<lambda>(gs, z). (consumed x y # gs, z)) (ms_groups rs y)) (ms r x))"

definition rx_exec :: "rx list \<Rightarrow> pos \<Rightarrow> (string list \<times> pos) option" where
  "rx_exec rs x = (case ms_groups rs x of [] \<Rightarrow> None | m # _ \<Rightarrow> Some m)"

text \<open>
  Pattern syntax: literal text, literal text under the \<^verbatim>\<open>i\<close> flag, \<^verbatim>\<open>+\<close>, \<^verbatim>\<open>?\<close>.
  Under the \<^verbatim>\<open>i\<close> flag a character of the text matches a character of the pattern when
  their upper-case forms are the same. The patterns of the source contain ASCII characters
  only, and among the code units of the model only an ASCII letter has the same upper-case
  form as another ASCII character, so \<open>to_upper\<close> changes the letters a to z and nothing
  else. The classes of the source's patterns under that flag (\<^verbatim>\<open>\s\<close>, \<^verbatim>\<open>[^}]\<close>,
  \<^verbatim>\<open>[^{}]\<close>) contain no letter and are written as they are.
\<close>

definition to_upper :: "char \<Rightarrow> char" where
  "to_upper c =
     (case map_of (zip ''abcdefghijklmnopqrstuvwxyz'' ''ABCDEFGHIJKLMNOPQRSTUVWXYZ'') c of
        None \<Rightarrow> c | Some u \<Rightarrow> u)"

primrec lit :: "string \<Rightarrow> rx" where
  "lit [] = Eps"
| "lit (c # cs) = Seq (Cls (\<lambda>x. x = c)) (lit cs)"

primrec lit_ci :: "string \<Rightarrow> rx" where
  "lit_ci [] = Eps"
| "lit_ci (c # cs) = Seq (Cls (\<lambda>x. to_upper x = to_upper c)) (lit_ci cs)"

definition plus :: "rx \<Rightarrow> rx" where
  "plus r = Seq r (Star r)"

definition opt :: "rx \<Rightarrow> rx" where
  "opt r = Alt r Eps"

text \<open>
  \<^verbatim>\<open>String.prototype.replace\<close> with a global pattern and a replacement function: the
  text is scanned from left to right; at each position the pattern is tried, a match is
  replaced and the scan goes on after it (one character further when the match is empty),
  and a character at which nothing matches is copied. A matcher gives the replacement and
  the position after the match.
\<close>

type_synonym matcher = "pos \<Rightarrow> (string \<times> pos) option"

function gsub :: "matcher \<Rightarrow> pos \<Rightarrow> string" where
  "gsub M x =
     (case M x of
        Some (rep, y) \<Rightarrow>
          if length (snd y) < length (snd x) then rep @ gsub M y
          else (case snd x of [] \<Rightarrow> rep | c # s \<Rightarrow> rep @ c # gsub M (Some c, s))
      | None \<Rightarrow> (case snd x of [] \<Rightarrow> [] | c # s \<Rightarrow> c # gsub M (Some c, s)))"
  by pat_completeness auto
termination
  by (relation "measure (\<lambda>(M, x). length (snd x))") auto

declare gsub.simps [simp del]

definition replacing :: "rx list \<Rightarrow> (string list \<Rightarrow> string) \<Rightarrow> matcher" where
  "replacing rs f x = map_option (\<lambda>(gs, y). (f gs, y)) (rx_exec rs x)"

text \<open>
  \<^verbatim>\<open>String.prototype.match\<close> with a pattern that is not global: the first position at
  which the pattern matches, with the components of the match there.
\<close>

fun rx_search :: "rx list \<Rightarrow> pos \<Rightarrow> string list option" where
  "rx_search rs (p, []) = map_option fst (rx_exec rs (p, []))"
| "rx_search rs (p, c # s) =
     (case rx_exec rs (p, c # s) of
        Some m \<Rightarrow> Some (fst m)
      | None \<Rightarrow> rx_search rs (Some c, s))"

section \<open>The helper functions of both files\<close>

text \<open>
  \<^verbatim>\<open>pinnedFromNote\<close>, \<^verbatim>\<open>protectCapitalsInFields\<close>, \<^verbatim>\<open>cleanTypeField\<close> and
  \<^verbatim>\<open>typeMap\<close> have the same text in both files.
\<close>

text \<open>\<^verbatim>\<open>/^\s*Citation Key:\s*([^\s#]+)\s*$/mi\<close>; the group is component 4.\<close>

definition pinned_rx :: "rx list" where
  "pinned_rx =
     [Bol, Star (Cls is_space), lit_ci ''Citation Key:'', Star (Cls is_space),
      plus (Cls (\<lambda>c. \<not> is_space c \<and> c \<noteq> CHR ''#'')), Star (Cls is_space), Eol]"

text \<open>
  \<^verbatim>\<open>if (!note) return null; const m = note.match(...); return m ? m[1] : null;\<close>
  A note that is missing, \<^verbatim>\<open>null\<close> or empty is falsy.
\<close>

definition pinnedFromNote :: "string option \<Rightarrow> string option" where
  "pinnedFromNote note =
     (case note of
        None \<Rightarrow> None
      | Some n \<Rightarrow>
          if n = [] then None
          else (case rx_search pinned_rx (None, n) of
                  None \<Rightarrow> None
                | Some m \<Rightarrow> Some (m ! 4)))"

text \<open>
  \<^verbatim>\<open>content.replace(/\b([A-Z]{2,})\b/g, '{{$1}}')\<close>; the group is component 1.
  The content is a string of its own: the scan starts with no character before it.
\<close>

definition acronym_rx :: "rx list" where
  "acronym_rx = [Wordb, Seq (Cls is_upper) (Seq (Cls is_upper) (Star (Cls is_upper))), Wordb]"

definition protect_content :: "string \<Rightarrow> string" where
  "protect_content content =
     gsub (replacing acronym_rx (\<lambda>gs. ''{{'' @ gs ! 1 @ ''}}'')) (None, content)"

text \<open>
  \<^verbatim>\<open>new RegExp(`(${field}\\s*=\\s*\\{)([^}]+)(\\})`, "gi")\<close>: the three groups are the
  three components.
\<close>

definition field_rx :: "string \<Rightarrow> rx list" where
  "field_rx field =
     [Seq (lit_ci field) (Seq (Star (Cls is_space)) (Seq (lit_ci ''='')
        (Seq (Star (Cls is_space)) (lit_ci ''{'')))),
      plus (Cls (\<lambda>c. c \<noteq> CHR ''}'')),
      lit_ci ''}'']"

definition protect_matcher :: "string \<Rightarrow> matcher" where
  "protect_matcher field =
     replacing (field_rx field) (\<lambda>gs. gs ! 0 @ protect_content (gs ! 1) @ gs ! 2)"

definition protect_field :: "string \<Rightarrow> string \<Rightarrow> string" where
  "protect_field field bib = gsub (protect_matcher field) (None, bib)"

definition default_fields :: "string list" where
  "default_fields = [''title'', ''booktitle'', ''series'', ''number'']"

text \<open>\<^verbatim>\<open>for (const field of fields) { bib = bib.replace(regex, ...) } return bib;\<close>\<close>

definition protectCapitalsInFields :: "string \<Rightarrow> string list \<Rightarrow> string" where
  "protectCapitalsInFields bib fields = foldl (\<lambda>b field. protect_field field b) bib fields"

text \<open>
  \<^verbatim>\<open>/(^|\n)(\s*)type\s*=\s*\{((?:[^{}]|{[^{}]*})*)\}(\s*,?)/gmi\<close>: the groups
  \<^verbatim>\<open>nl\<close>, \<^verbatim>\<open>indent\<close>, \<^verbatim>\<open>content\<close> and \<^verbatim>\<open>comma\<close> are the components 0, 1, 3 and 5.
\<close>

definition not_brace :: "char \<Rightarrow> bool" where
  "not_brace c \<longleftrightarrow> c \<noteq> CHR ''{'' \<and> c \<noteq> CHR ''}''"

definition type_rx :: "rx list" where
  "type_rx =
     [Alt Bol (lit_ci [CHR 0x0A]),
      Star (Cls is_space),
      Seq (lit_ci ''type'') (Seq (Star (Cls is_space)) (Seq (lit_ci ''='')
        (Seq (Star (Cls is_space)) (lit_ci ''{'')))),
      Star (Alt (Cls not_brace) (Seq (lit_ci ''{'') (Seq (Star (Cls not_brace)) (lit_ci ''}'')))),
      lit_ci ''}'',
      Seq (Star (Cls is_space)) (opt (lit_ci '','')) ]"

text \<open>\<^verbatim>\<open>content.replace(/[{}]/g, "").replace(/\s+/g, " ").trim()\<close>\<close>

definition strip_braces :: "string \<Rightarrow> string" where
  "strip_braces s = gsub (replacing [Cls (\<lambda>c. \<not> not_brace c)] (\<lambda>gs. [])) (None, s)"

definition collapse_spaces :: "string \<Rightarrow> string" where
  "collapse_spaces s = gsub (replacing [plus (Cls is_space)] (\<lambda>gs. '' '')) (None, s)"

definition clean_content :: "string \<Rightarrow> string" where
  "clean_content content = trim (collapse_spaces (strip_braces content))"

definition type_matcher :: matcher where
  "type_matcher =
     replacing type_rx (\<lambda>gs. gs ! 0 @ gs ! 1 @ ''type = {'' @ clean_content (gs ! 3) @ ''}'' @ gs ! 5)"

definition cleanTypeField :: "string \<Rightarrow> string" where
  "cleanTypeField bib = gsub type_matcher (None, bib)"

text \<open>
  \<^verbatim>\<open>typeMap\<close> is an object literal. Reading a property of it finds the twelve entries of
  the literal and, through its prototype, the properties that every object inherits from
  \<^verbatim>\<open>Object.prototype\<close>, which are functions (and, for \<^verbatim>\<open>__proto__\<close>, the prototype
  itself); converted to a string in the template literal of the header, those give the
  text that Node.js prints for them.
\<close>

datatype js_value = Undefined | JString string | JNative string

definition typeMap :: "(string \<times> string) list" where
  "typeMap =
     [(''article-journal'', ''article''),
      (''article'', ''article''),
      (''book'', ''book''),
      (''chapter'', ''incollection''),
      (''paper-conference'', ''inproceedings''),
      (''thesis'', ''thesis''),
      (''report'', ''report''),
      (''webpage'', ''online''),
      (''post'', ''online''),
      (''post-weblog'', ''online''),
      (''dataset'', ''dataset''),
      (''manuscript'', ''unpublished'')]"

definition object_prototype :: "string list" where
  "object_prototype =
     [''constructor'', ''__defineGetter__'', ''__defineSetter__'', ''hasOwnProperty'',
      ''__lookupGetter__'', ''__lookupSetter__'', ''isPrototypeOf'', ''propertyIsEnumerable'',
      ''toString'', ''valueOf'', ''__proto__'', ''toLocaleString'']"

definition typeMap_get :: "string \<Rightarrow> js_value" where
  "typeMap_get k =
     (case map_of typeMap k of
        Some v \<Rightarrow> JString v
      | None \<Rightarrow>
          if k = ''__proto__'' then JNative ''[object Object]''
          else if k = ''constructor'' then JNative ''function Object() { [native code] }''
          else if k \<in> set object_prototype
          then JNative (''function '' @ k @ ''() { [native code] }'')
          else Undefined)"

text \<open>\<^verbatim>\<open>Map.prototype.get\<close>, \<^verbatim>\<open>a || b\<close> and the conversion to a string.\<close>

definition map_get :: "(string \<rightharpoonup> string) \<Rightarrow> string \<Rightarrow> js_value" where
  "map_get m k = (case m k of None \<Rightarrow> Undefined | Some v \<Rightarrow> JString v)"

fun truthy :: "js_value \<Rightarrow> bool" where
  "truthy Undefined = False"
| "truthy (JString s) = (s \<noteq> [])"
| "truthy (JNative s) = True"

definition js_or :: "js_value \<Rightarrow> js_value \<Rightarrow> js_value" where
  "js_or a b = (if truthy a then a else b)"

fun to_string :: "js_value \<Rightarrow> string" where
  "to_string Undefined = ''undefined''"
| "to_string (JString s) = s"
| "to_string (JNative s) = s"

section \<open>Collection fetcher\<close>

text \<open>
  An entry of the collection (\<^verbatim>\<open>CSLItem\<close>). The index builder tests whether \<^verbatim>\<open>id\<close> is
  a string, so the model keeps the two ways in which it is not one; \<^verbatim>\<open>note\<close> and
  \<^verbatim>\<open>type\<close> are strings when they are present.
\<close>

datatype js_id = IdMissing | IdNotString | IdString string

record csl_item =
  csl_id :: js_id
  csl_note :: "string option"
  csl_type :: "string option"

text \<open>
  The parsed body of a reply: an array of entries, an object whose \<^verbatim>\<open>items\<close> is an
  array of entries, or any other JSON value.
\<close>

datatype json_body = BodyArray "csl_item list" | BodyWithItems "csl_item list" | BodyOther

fun normalizeItems :: "json_body \<Rightarrow> csl_item list" where
  "normalizeItems (BodyArray items) = items"
| "normalizeItems (BodyWithItems items) = items"
| "normalizeItems BodyOther = []"

text \<open>
  The reply to the request for the page that starts at an offset: a status that is not a
  success, or the parsed body with the \<^verbatim>\<open>Total-Results\<close> header when it is there.
\<close>

record response =
  body :: json_body
  total_results :: "string option"

type_synonym csl_server = "nat \<Rightarrow> nat + response"

text \<open>\<^verbatim>\<open>`${page.length}`\<close>: a number written in decimal.\<close>

definition digit_char :: "nat \<Rightarrow> char" where
  "digit_char d = ''0123456789'' ! (d mod 10)"

function show_nat :: "nat \<Rightarrow> string" where
  "show_nat n = (if n < 10 then [digit_char n] else show_nat (n div 10) @ [digit_char (n mod 10)])"
  by pat_completeness auto
termination
  by (relation "measure id") auto

declare show_nat.simps [simp del]

text \<open>
  \<^verbatim>\<open>parseInt(s, 10)\<close>: leading white space is skipped, a sign is read, and the longest
  run of decimal digits that follows is the value; with no digit the result is \<^verbatim>\<open>NaN\<close>,
  here \<open>None\<close>. The value is kept exact; it is only compared with the length of a list.
\<close>

definition digit_value :: "char \<Rightarrow> nat" where
  "digit_value c = (case map_of (zip ''0123456789'' [0, 1, 2, 3, 4, 5, 6, 7, 8, 9]) c of
                      None \<Rightarrow> 0 | Some d \<Rightarrow> d)"

definition digits_value :: "string \<Rightarrow> nat" where
  "digits_value ds = foldl (\<lambda>v c. 10 * v + digit_value c) 0 ds"

definition parseInt10 :: "string \<Rightarrow> int option" where
  "parseInt10 str =
     (let s = dropWhile is_space str;
          neg = (s \<noteq> [] \<and> hd s = CHR ''-'');
          s1 = (if s \<noteq> [] \<and> (hd s = CHR ''+'' \<or> hd s = CHR ''-'') then tl s else s);
          z = takeWhile is_digit s1
      in if z = [] then None
         else Some (if neg then - int (digits_value z) else int (digits_value z)))"

text \<open>
  \<^verbatim>\<open>parseInt(headers.get("Total-Results") || `${page.length}`, 10)\<close>: a header that is
  absent or empty is falsy.
\<close>

definition page_total :: "string option \<Rightarrow> nat \<Rightarrow> int option" where
  "page_total header n =
     parseInt10 (case header of
                   None \<Rightarrow> show_nat n
                 | Some h \<Rightarrow> if h = [] then show_nat n else h)"

text \<open>\<^verbatim>\<open>all.length >= total\<close>: a comparison with \<^verbatim>\<open>NaN\<close> is false.\<close>

definition reached :: "nat \<Rightarrow> int option \<Rightarrow> bool" where
  "reached n tot = (case tot of None \<Rightarrow> False | Some t \<Rightarrow> t \<le> int n)"

definition fetchJSON :: "csl_server \<Rightarrow> nat \<Rightarrow> error + response" where
  "fetchJSON srv start =
     (case srv start of
        Inl status \<Rightarrow>
          Inl (HttpError status
                 (''/items?format=csljson&recursive=1&top=1&limit=100&start='' @ show_nat start))
      | Inr r \<Rightarrow> Inr r)"

text \<open>
  The loop of \<^verbatim>\<open>fetchAllParentsCSL\<close>. It has no bound of its own: a service that keeps
  sending full pages keeps it running, and then the function has no result (\<open>None\<close>).
  Besides the source's \<^verbatim>\<open>start\<close> and \<^verbatim>\<open>all\<close>, the model records the offsets that were
  requested, in order.
\<close>

partial_function (option) fetch_pages ::
  "csl_server \<Rightarrow> nat \<Rightarrow> csl_item list \<Rightarrow> nat list \<Rightarrow> (nat list \<times> (error + csl_item list)) option"
where
  "fetch_pages srv start all requested =
     (case fetchJSON srv start of
        Inl e \<Rightarrow> Some (requested @ [start], Inl e)
      | Inr r \<Rightarrow>
          (let page = normalizeItems (body r);
               tot = page_total (total_results r) (length page);
               all1 = all @ page
           in if length page < 100 \<or> reached (length all1) tot
              then Some (requested @ [start], Inr all1)
              else fetch_pages srv (start + length page) all1 (requested @ [start])))"

definition fetchAllParentsCSL :: "csl_server \<Rightarrow> (nat list \<times> (error + csl_item list)) option" where
  "fetchAllParentsCSL srv = fetch_pages srv 0 [] []"

section \<open>Pin and type index builder\<close>

text \<open>\<^verbatim>\<open>String.prototype.split\<close> with a separator of one character, and \<^verbatim>\<open>pop\<close>.\<close>

fun split_on :: "char \<Rightarrow> string \<Rightarrow> string list" where
  "split_on sep [] = [[]]"
| "split_on sep (c # s) =
     (if c = sep then [] # split_on sep s
      else (case split_on sep s of
              [] \<Rightarrow> [[c]]
            | w # ws \<Rightarrow> (c # w) # ws))"

definition pop :: "'a list \<Rightarrow> 'a option" where
  "pop xs = (if xs = [] then None else Some (last xs))"

text \<open>
  \<^verbatim>\<open>const id = typeof it.id === "string" ? it.id : ""; const key = id.split("/").pop();\<close>
\<close>

definition item_key :: "csl_item \<Rightarrow> string option" where
  "item_key it =
     (let ident = (case csl_id it of IdString s \<Rightarrow> s | _ \<Rightarrow> [])
      in pop (split_on CHR ''/'' ident))"

record index =
  pinnedMap :: "string \<rightharpoonup> string"
  typeHints :: "string \<rightharpoonup> string"
  itemKeys :: "string list"

definition empty_index :: index where
  "empty_index = \<lparr>pinnedMap = Map.empty, typeHints = Map.empty, itemKeys = []\<rparr>"

text \<open>
  The body of the loop over the entries:
  \<^verbatim>\<open>if (!key) continue; itemKeys.push(key);
   const pinned = pinnedFromNote(it.note); if (pinned) pinnedMap.set(key, pinned);
   if (it.type) typeHints.set(key, it.type);\<close>
\<close>

definition index_step :: "index \<Rightarrow> csl_item \<Rightarrow> index" where
  "index_step ix it =
     (case item_key it of
        None \<Rightarrow> ix
      | Some key \<Rightarrow>
          if key = [] then ix
          else
            (let ix1 = ix\<lparr>itemKeys := itemKeys ix @ [key]\<rparr>;
                 ix2 = (case pinnedFromNote (csl_note it) of
                          None \<Rightarrow> ix1
                        | Some pinned \<Rightarrow>
                            if pinned \<noteq> [] then ix1\<lparr>pinnedMap := (pinnedMap ix1)(key \<mapsto> pinned)\<rparr>
                            else ix1)
             in (case csl_type it of
                   None \<Rightarrow> ix2
                 | Some t \<Rightarrow>
                     if t \<noteq> [] then ix2\<lparr>typeHints := (typeHints ix2)(key \<mapsto> t)\<rparr> else ix2)))"

definition build_index :: "csl_item list \<Rightarrow> index" where
  "build_index cslItems = foldl index_step empty_index cslItems"

section \<open>Bibliography fetcher: assembling the raw text\<close>

text \<open>
  \<^verbatim>\<open>fetchText\<close> either throws or returns the body.
  The remote service is a function from the comma-joined \<^verbatim>\<open>itemKey\<close> parameter to
  the status of a failed request or the body of a successful one.
\<close>

type_synonym bib_server = "string \<Rightarrow> nat + string"

text \<open>\<^verbatim>\<open>keys.join(",")\<close>.\<close>

fun join_comma :: "string list \<Rightarrow> string" where
  "join_comma [] = []"
| "join_comma [k] = k"
| "join_comma (k # ks) = k @ '','' @ join_comma ks"

definition fetchBibForKeys :: "bib_server \<Rightarrow> string list \<Rightarrow> error + string" where
  "fetchBibForKeys srv keys =
     (let joined = join_comma keys in
      case srv joined of
        Inl status \<Rightarrow> Inl (HttpError status (''/items?format=bibtex&itemKey='' @ joined))
      | Inr text \<Rightarrow> Inr text)"

text \<open>
  The body of the accumulation loop:
  \<^verbatim>\<open>if (part && part.trim()) { if (bib && !bib.endsWith("\n")) bib += "\n";
       bib += part.trim() + "\n"; }\<close>
  A string is truthy when it is not empty.
\<close>

definition append_part :: "string \<Rightarrow> string \<Rightarrow> string" where
  "append_part bib part =
     (if part \<noteq> [] \<and> trim part \<noteq> [] then
        (let bib1 = (if bib \<noteq> [] \<and> \<not> ends_with_newline bib then bib @ [CHR 0x0A] else bib)
         in bib1 @ trim part @ [CHR 0x0A])
      else bib)"

text \<open>
  \<^verbatim>\<open>for (let i = 0; i < itemKeys.length; i += 50) { chunk = itemKeys.slice(i, i + 50); ... }\<close>:
  the loop runs once for every slice of \<open>n\<close> keys.
\<close>

function chunks :: "nat \<Rightarrow> 'a list \<Rightarrow> 'a list list" where
  "chunks n xs = (if n = 0 \<or> xs = [] then [] else take n xs # chunks n (drop n xs))"
  by pat_completeness auto
termination
  by (relation "measure (\<lambda>(n, xs). length xs)") auto

declare chunks.simps [simp del]

fun fetch_bib_loop :: "bib_server \<Rightarrow> string list list \<Rightarrow> string \<Rightarrow> error + string" where
  "fetch_bib_loop srv [] bib = Inr bib"
| "fetch_bib_loop srv (chunk # cs) bib =
     (case fetchBibForKeys srv chunk of
        Inl e \<Rightarrow> Inl e
      | Inr part \<Rightarrow> fetch_bib_loop srv cs (append_part bib part))"

definition fetch_raw_bib :: "bib_server \<Rightarrow> string list \<Rightarrow> error + string" where
  "fetch_raw_bib srv keys = fetch_bib_loop srv (chunks 50 keys) []"

section \<open>Bibliography rewriter\<close>

text \<open>
  Pass 1, \<^verbatim>\<open>bib.replace(/@(\w+)\{([^,]+),/g, (m, type, k) => ...)\<close>; the groups
  \<^verbatim>\<open>type\<close> and \<^verbatim>\<open>k\<close> are the components 1 and 3. In the TypeScript action:
  \<^verbatim>\<open>const newKey = pinnedMap.get(k) || k;
   const mapped = typeMap[typeHints.get(k) || ""] || type;
   return `@${mapped}{${newKey},`;\<close>
\<close>

definition header_rx :: "rx list" where
  "header_rx =
     [lit ''@'', plus (Cls is_word), lit ''{'', plus (Cls (\<lambda>c. c \<noteq> CHR '','')), lit '','']"

definition header_callback :: "index \<Rightarrow> string list \<Rightarrow> string" where
  "header_callback ix gs =
     (let type = gs ! 1; k = gs ! 3;
          newKey = js_or (map_get (pinnedMap ix) k) (JString k);
          mapped = js_or (typeMap_get (to_string (js_or (map_get (typeHints ix) k) (JString []))))
                         (JString type)
      in ''@'' @ to_string mapped @ ''{'' @ to_string newKey @ '','')"

definition header_matcher :: "index \<Rightarrow> matcher" where
  "header_matcher ix = replacing header_rx (header_callback ix)"

definition header_rewrite :: "index \<Rightarrow> string \<Rightarrow> string" where
  "header_rewrite ix bib = gsub (header_matcher ix) (None, bib)"

text \<open>
  Pass 2, \<^verbatim>\<open>bib.replace(/(journal\s*=\s*\{)([^}]+)(\})/gi,
     (_, pre, content) => `organization = {${content}}`)\<close>.
\<close>

definition journal_matcher :: matcher where
  "journal_matcher = replacing (field_rx ''journal'') (\<lambda>gs. ''organization = {'' @ gs ! 1 @ ''}'')"

definition journal_rename :: "string \<Rightarrow> string" where
  "journal_rename bib = gsub journal_matcher (None, bib)"

text \<open>The four passes, in the order of the source.\<close>

definition rewrite :: "index \<Rightarrow> string \<Rightarrow> string" where
  "rewrite ix bib =
     cleanTypeField (protectCapitalsInFields (journal_rename (header_rewrite ix bib)) default_fields)"

text \<open>
  The whole run: the entries, the index, the raw text, the rewritten text that is written
  to the output file. An error of a request ends the run.
\<close>

definition run :: "csl_server \<Rightarrow> bib_server \<Rightarrow> (error + string) option" where
  "run csl bibsrv =
     (case fetchAllParentsCSL csl of
        None \<Rightarrow> None
      | Some (requested, Inl e) \<Rightarrow> Some (Inl e)
      | Some (requested, Inr cslItems) \<Rightarrow>
          (let ix = build_index cslItems in
           case fetch_raw_bib bibsrv (itemKeys ix) of
             Inl e \<Rightarrow> Some (Inl e)
           | Inr bib \<Rightarrow> Some (Inr (rewrite ix bib))))"

section \<open>The script \<^verbatim>\<open>fetch_library_bibtex_with_pinned.mjs\<close>\<close>

text \<open>
  The script has the same helper functions, the same fetch loops and the same index loop
  as the action. Its header callback reads the type map without a default for a missing
  hint, \<^verbatim>\<open>const mapped = typeMap[typeHints.get(k)] || type;\<close>, where the property name
  of a missing hint is the text \<^verbatim>\<open>undefined\<close>; its journal callback names all its
  parameters, \<^verbatim>\<open>(m, pre, content, post) => `organization = {${content}}`\<close>.
\<close>

definition index_step_mjs :: "index \<Rightarrow> csl_item \<Rightarrow> index" where
  "index_step_mjs ix it =
     (case item_key it of
        None \<Rightarrow> ix
      | Some key \<Rightarrow>
          if key = [] then ix
          else
            (let ix1 = ix\<lparr>itemKeys := itemKeys ix @ [key]\<rparr>;
                 ix2 = (case pinnedFromNote (csl_note it) of
                          None \<Rightarrow> ix1
                        | Some pinned \<Rightarrow>
                            if pinned \<noteq> [] then ix1\<lparr>pinnedMap := (pinnedMap ix1)(key \<mapsto> pinned)\<rparr>
                            else ix1)
             in (case csl_type it of
                   None \<Rightarrow> ix2
                 | Some t \<Rightarrow>
                     if t \<noteq> [] then ix2\<lparr>typeHints := (typeHints ix2)(key \<mapsto> t)\<rparr> else ix2)))"

definition build_index_mjs :: "csl_item list \<Rightarrow> index" where
  "build_index_mjs cslItems = foldl index_step_mjs empty_index cslItems"

definition header_callback_mjs :: "index \<Rightarrow> string list \<Rightarrow> string" where
  "header_callback_mjs ix gs =
     (let type = gs ! 1; k = gs ! 3;
          newKey = js_or (map_get (pinnedMap ix) k) (JString k);
          mapped = js_or (typeMap_get (to_string (map_get (typeHints ix) k))) (JString type)
      in ''@'' @ to_string mapped @ ''{'' @ to_string newKey @ '','')"

definition header_rewrite_mjs :: "index \<Rightarrow> string \<Rightarrow> string" where
  "header_rewrite_mjs ix bib = gsub (replacing header_rx (header_callback_mjs ix)) (None, bib)"

definition journal_rename_mjs :: "string \<Rightarrow> string" where
  "journal_rename_mjs bib =
     gsub (replacing (field_rx ''journal'') (\<lambda>gs. ''organization = {'' @ gs ! 1 @ ''}'')) (None, bib)"

definition rewrite_mjs :: "index \<Rightarrow> string \<Rightarrow> string" where
  "rewrite_mjs ix bib =
     cleanTypeField
       (protectCapitalsInFields (journal_rename_mjs (header_rewrite_mjs ix bib)) default_fields)"

definition run_mjs :: "csl_server \<Rightarrow> bib_server \<Rightarrow> (error + string) option" where
  "run_mjs csl bibsrv =
     (case fetchAllParentsCSL csl of
        None \<Rightarrow> None
      | Some (requested, Inl e) \<Rightarrow> Some (Inl e)
      | Some (requested, Inr cslItems) \<Rightarrow>
          (let ix = build_index_mjs cslItems in
           case fetch_raw_bib bibsrv (itemKeys ix) of
             Inl e \<Rightarrow> Some (Inl e)
           | Inr bib \<Rightarrow> Some (Inr (rewrite_mjs ix bib))))"

section \<open>Notions used in the statements and proofs\<close>

text \<open>
  What the index loop maintains: no key, pinned key or type hint is empty, and only listed
  keys have a pinned key or a hint.
\<close>

definition index_ok :: "index \<Rightarrow> bool" where
  "index_ok ix \<longleftrightarrow> [] \<notin> set (itemKeys ix) \<and> [] \<notin> dom (pinnedMap ix) \<and> [] \<notin> dom (typeHints ix)
      \<and> [] \<notin> ran (pinnedMap ix) \<and> [] \<notin> ran (typeHints ix)
      \<and> dom (pinnedMap ix) \<subseteq> set (itemKeys ix) \<and> dom (typeHints ix) \<subseteq> set (itemKeys ix)"

text \<open>
  The test that ends the loop of the collection fetcher, for a reply and the number of
  entries received with it; the offsets of the requests for a sequence of replies; and the
  replies of a run: each is the reply to the request at the offset reached, the loop goes
  on after each but the last, and it stops at the last.
\<close>

definition stops :: "response \<Rightarrow> nat \<Rightarrow> bool" where
  "stops r n \<longleftrightarrow> (let page = normalizeItems (body r) in
      length page < 100 \<or> reached n (page_total (total_results r) (length page)))"

primrec offsets :: "nat \<Rightarrow> response list \<Rightarrow> nat list" where
  "offsets start [] = []"
| "offsets start (r # rs) = start # offsets (start + length (normalizeItems (body r))) rs"

primrec pages_ok :: "csl_server \<Rightarrow> nat \<Rightarrow> nat \<Rightarrow> response list \<Rightarrow> bool" where
  "pages_ok srv start n [] = False"
| "pages_ok srv start n (r # rs) =
     (srv start = Inr r \<and>
      (let n1 = n + length (normalizeItems (body r)) in
       if rs = [] then stops r n1
       else \<not> stops r n1 \<and> pages_ok srv (start + length (normalizeItems (body r))) n1 rs))"

text \<open>
  A service whose collection has 340 entries: pages of 100, 100, 100 and 40 entries at the
  offsets 0, 100, 200 and 300, every reply with the given \<^verbatim>\<open>Total-Results\<close> header.
\<close>

definition blank_item :: csl_item where
  "blank_item = \<lparr>csl_id = IdString ''1/K'', csl_note = None, csl_type = None\<rparr>"

definition paging_reply :: "string option \<Rightarrow> nat \<Rightarrow> response" where
  "paging_reply header start =
     \<lparr>body = BodyArray (replicate (if start < 300 then 100 else 40) blank_item),
      total_results = header\<rparr>"

definition paging_server :: "string option \<Rightarrow> csl_server" where
  "paging_server header start = Inr (paging_reply header start)"

text \<open>
  The character before the position that follows the text \<open>w\<close>, when \<open>p\<close> is the one before
  \<open>w\<close>.
\<close>

definition prev_after :: "char option \<Rightarrow> string \<Rightarrow> char option" where
  "prev_after p w = (if w = [] then p else Some (last w))"

text \<open>\<open>x\<close> is the first element of a list: the first way in which a pattern matches.\<close>

definition first_is :: "'a list \<Rightarrow> 'a \<Rightarrow> bool" where
  "first_is xs x \<longleftrightarrow> xs \<noteq> [] \<and> hd xs = x"

text \<open>
  The matcher finds nothing at any position inside \<open>pre\<close>, in the text \<open>pre @ s\<close> that
  follows the character \<open>p\<close>.
\<close>

fun no_match_in :: "(pos \<Rightarrow> 'a option) \<Rightarrow> char option \<Rightarrow> string \<Rightarrow> string \<Rightarrow> bool" where
  "no_match_in M p [] s = True"
| "no_match_in M p (c # pre) s = (M (p, c # pre @ s) = None \<and> no_match_in M (Some c) pre s)"

text \<open>
  The positions at which a greedy iteration over a class stops, longest first, when the
  iteration can run over all of \<open>u\<close>.
\<close>

fun backoffs :: "char option \<Rightarrow> string \<Rightarrow> string \<Rightarrow> pos list" where
  "backoffs p [] s = [(p, s)]"
| "backoffs p (c # u) s = backoffs (Some c) u s @ [(p, c # u @ s)]"




section \<open>Properties of the matcher\<close>

lemma prev_after_Nil [simp]: "prev_after p [] = p"
  by (simp add: prev_after_def)

lemma prev_after_Cons [simp]: "prev_after p (c # w) = prev_after (Some c) w"
  by (simp add: prev_after_def)

lemma prev_after_append [simp]: "prev_after p (u @ v) = prev_after (prev_after p u) v"
  by (induction u arbitrary: p) simp_all

lemma prev_after_snoc: "prev_after p (u @ [c]) = Some c"
  by simp

lemma first_isI: "xs = x # t \<Longrightarrow> first_is xs x"
  by (simp add: first_is_def)

lemma first_isD: "first_is xs x \<Longrightarrow> xs = x # tl xs"
  by (cases xs) (simp_all add: first_is_def)

lemma first_is_single [simp]: "first_is [x] y \<longleftrightarrow> x = y"
  by (simp add: first_is_def)

lemma first_is_append: "first_is xs x \<Longrightarrow> first_is (xs @ ys) x"
  by (auto simp: first_is_def)

lemma first_is_concat_map:
  assumes "first_is xs y" and "first_is (f y) z"
  shows "first_is (concat (map f xs)) z"
proof -
  have t: "xs = y # tl xs" using assms(1) by (rule first_isD)
  have t': "f y = z # tl (f y)" using assms(2) by (rule first_isD)
  have "concat (map f xs) = z # tl (f y) @ concat (map f (tl xs))"
    by (subst t, simp, subst t', simp)
  then show ?thesis by (rule first_isI)
qed

lemma first_Seq: "first_is (ms a x) y \<Longrightarrow> first_is (ms b y) z \<Longrightarrow> first_is (ms (Seq a b) x) z"
  by (simp add: first_is_concat_map)




lemma ms_lit_ci:
  "map to_upper v = map to_upper w \<Longrightarrow> ms (lit_ci w) (p, v @ s) = [(prev_after p v, s)]"
proof (induction w arbitrary: p v)
  case Nil
  then show ?case by simp
next
  case (Cons c w)
  then obtain d u where v: "v = d # u" and d: "to_upper d = to_upper c"
    and u: "map to_upper u = map to_upper w"
    by (cases v) auto
  show ?case using Cons.IH [OF u] d by (simp add: v)
qed

lemma ms_Cls_stop: "s = [] \<or> \<not> P (hd s) \<Longrightarrow> ms (Cls P) (p, s) = []"
  by (cases s) auto

lemma ms_Cls_step: "P c \<Longrightarrow> ms (Cls P) (p, c # s) = [(Some c, s)]"
  by simp

lemma star_stop: "f x = [] \<Longrightarrow> star n f x = [x]"
  by (cases n) simp_all

lemma star_step:
  "f x = [y] \<Longrightarrow> length (snd y) < length (snd x) \<Longrightarrow> star (Suc n) f x = star n f y @ [x]"
  by simp

lemma star_run:
  assumes stop: "\<And>p. f (p, s) = []"
    and step: "\<And>p c t. c \<in> set u \<Longrightarrow> f (p, c # t) = [(Some c, t)]"
    and n: "length (u @ s) \<le> n"
  shows "star n f (p, u @ s) = backoffs p u s"
  using step n
proof (induction u arbitrary: p n)
  case Nil
  show ?case using stop by (simp add: star_stop)
next
  case (Cons c u)
  then obtain m where n: "n = Suc m" by (cases n) auto
  have "star m f (Some c, u @ s) = backoffs (Some c) u s"
    using Cons.prems n by (intro Cons.IH) auto
  moreover have "f (p, c # u @ s) = [(Some c, u @ s)]"
    using Cons.prems(1) by simp
  ultimately show ?case
    using star_step [of f "(p, c # u @ s)" "(Some c, u @ s)" m] by (simp add: n)
qed

lemma star_cls:
  assumes "\<forall>c \<in> set u. P c" and "s = [] \<or> \<not> P (hd s)" and "length (u @ s) \<le> n"
  shows "star n (ms (Cls P)) (p, u @ s) = backoffs p u s"
proof (rule star_run)
  show "ms (Cls P) (q, s) = []" for q
    using assms(2) by (rule ms_Cls_stop)
  show "ms (Cls P) (q, c # t) = [(Some c, t)]" if "c \<in> set u" for q c t
    using that assms(1) by (simp add: ms_Cls_step)
  show "length (u @ s) \<le> n" by (rule assms(3))
qed

lemma hd_backoffs: "first_is (backoffs p u s) (prev_after p u, s)"
  by (induction u arbitrary: p) (simp_all add: first_is_append)


lemma ms_Star_cls:
  assumes "\<forall>c \<in> set u. P c" and "s = [] \<or> \<not> P (hd s)"
  shows "ms (Star (Cls P)) (p, u @ s) = backoffs p u s"
proof -
  have "star (length (u @ s)) (ms (Cls P)) (p, u @ s) = backoffs p u s"
    using assms by (intro star_cls) simp_all
  then show ?thesis by (simp only: ms.simps snd_conv)
qed

lemma first_Star_cls:
  assumes "\<forall>c \<in> set u. P c" and "s = [] \<or> \<not> P (hd s)"
  shows "first_is (ms (Star (Cls P)) (p, u @ s)) (prev_after p u, s)"
  unfolding ms_Star_cls [OF assms] by (rule hd_backoffs)

lemma first_plus_cls:
  assumes "u \<noteq> []" and "\<forall>c \<in> set u. P c" and "s = [] \<or> \<not> P (hd s)"
  shows "first_is (ms (plus (Cls P)) (p, u @ s)) (prev_after p u, s)"
proof -
  obtain c w where u: "u = c # w" using assms(1) by (cases u) auto
  have c: "P c" using assms(2) by (simp add: u)
  have 1: "first_is (ms (Cls P) (p, u @ s)) (Some c, w @ s)"
    using c by (simp add: u)
  have 2: "first_is (ms (Star (Cls P)) (Some c, w @ s)) (prev_after (Some c) w, s)"
    using assms by (intro first_Star_cls) (auto simp: u)
  have "first_is (ms (Seq (Cls P) (Star (Cls P))) (p, u @ s)) (prev_after (Some c) w, s)"
    using 1 2 by (rule first_Seq)
  then show ?thesis by (simp add: plus_def u)
qed


lemma first_lit_ci:
  "map to_upper v = map to_upper w \<Longrightarrow> first_is (ms (lit_ci w) (p, v @ s)) (prev_after p v, s)"
  by (simp add: ms_lit_ci)

subsection \<open>Patterns\<close>

lemma consumed_append [simp]: "consumed (p, w @ s) (q, s) = w"
  by (simp add: consumed_def)

lemma consumed_same [simp]: "consumed (p, s) (q, s) = []"
  by (simp add: consumed_def)

lemma rx_exec_Nil [simp]: "rx_exec [] x = Some ([], x)"
  by (simp add: rx_exec_def)

lemma rx_exec_Cons:
  assumes "first_is (ms r x) y" and "rx_exec rs y = Some (gs, z)"
  shows "rx_exec (r # rs) x = Some (consumed x y # gs, z)"
proof -
  obtain t where t: "ms r x = y # t" using first_isD [OF assms(1)] by simp
  obtain t' where t': "ms_groups rs y = (gs, z) # t'"
    using assms(2) by (auto simp: rx_exec_def split: list.splits)
  show ?thesis by (simp add: rx_exec_def t t')
qed

lemma ms_groups_length: "(gs, z) \<in> set (ms_groups rs x) \<Longrightarrow> length gs = length rs"
  by (induction rs arbitrary: x gs z) auto

subsection \<open>Scanning\<close>

lemma gsub_match:
  assumes "M (p, s) = Some (rep, (q, t))" and "length t < length s"
  shows "gsub M (p, s) = rep @ gsub M (q, t)"
  using assms by (subst gsub.simps) simp

lemma gsub_skip:
  assumes "no_match_in M p pre s"
  shows "gsub M (p, pre @ s) = pre @ gsub M (prev_after p pre, s)"
  using assms
proof (induction pre arbitrary: p)
  case Nil
  then show ?case by simp
next
  case (Cons c pre)
  then have "gsub M (p, (c # pre) @ s) = c # gsub M (Some c, pre @ s)"
    by (subst gsub.simps) simp
  then show ?case using Cons by simp
qed





lemma first_lit_ci_last:
  "map to_upper v = map to_upper w \<Longrightarrow> v \<noteq> [] \<Longrightarrow>
     first_is (ms (lit_ci w) (p, v @ s)) (Some (last v), s)"
  using first_lit_ci [of v w p s] by (simp add: prev_after_def)

lemma first_plus_cls_last:
  assumes "u \<noteq> []" and "\<forall>c \<in> set u. P c" and "s = [] \<or> \<not> P (hd s)"
  shows "first_is (ms (plus (Cls P)) (p, u @ s)) (Some (last u), s)"
  using first_plus_cls [OF assms, of p] assms(1) by (simp add: prev_after_def)

lemma rx_exec_Cons_app:
  assumes "first_is (ms r (p, w @ s)) (q, s)" and "rx_exec rs (q, s) = Some (gs, z)"
  shows "rx_exec (r # rs) (p, w @ s) = Some (w # gs, z)"
  using rx_exec_Cons [OF assms] by simp

lemma rx_exec_single_app:
  assumes "first_is (ms r (p, w @ s)) (q, s)"
  shows "rx_exec [r] (p, w @ s) = Some ([w], (q, s))"
  using assms rx_exec_Nil by (rule rx_exec_Cons_app)

text \<open>
  From here on the equations of the matcher are used through the lemmas above; they are
  added again where a pattern is evaluated on a given text.
\<close>

declare ms.simps [simp del] star.simps [simp del] lit.simps [simp del] lit_ci.simps [simp del]
declare ms_groups.simps [simp del] rx_search.simps [simp del]

lemmas matcher_simps = ms.simps star.simps lit.simps lit_ci.simps ms_groups.simps rx_search.simps

section \<open>Matches of the patterns of the rewriter\<close>

lemma not_space_eq: "\<not> is_space CHR ''=''" "\<not> is_space CHR ''{''"
  by (simp_all add: is_space_def)


text \<open>The first component of a field pattern: the name, \<^verbatim>\<open>\s*=\s*\<close> and the brace.\<close>

lemma first_field_head:
  assumes nm: "map to_upper nm = map to_upper field"
    and ws: "\<forall>c \<in> set ws1. is_space c" "\<forall>c \<in> set ws2. is_space c"
  shows "first_is
           (ms (Seq (lit_ci field) (Seq (Star (Cls is_space)) (Seq (lit_ci ''='')
                  (Seq (Star (Cls is_space)) (lit_ci ''{'')))))
               (p, (nm @ ws1 @ ''='' @ ws2 @ ''{'') @ s))
           (Some CHR ''{'', s)"
proof -
  let ?t4 = "''{'' @ s"
  let ?t3 = "ws2 @ ?t4"
  let ?t2 = "''='' @ ?t3"
  let ?t1 = "ws1 @ ?t2"
  have 1: "first_is (ms (lit_ci field) (p, nm @ ?t1)) (prev_after p nm, ?t1)"
    using nm by (rule first_lit_ci)
  have 2: "first_is (ms (Star (Cls is_space)) (prev_after p nm, ws1 @ ?t2))
             (prev_after (prev_after p nm) ws1, ?t2)"
    using ws(1) by (rule first_Star_cls) (simp add: not_space_eq)
  have 3: "first_is (ms (lit_ci ''='') (prev_after (prev_after p nm) ws1, ''='' @ ?t3))
             (Some (last ''=''), ?t3)"
    by (rule first_lit_ci_last) simp_all
  have 4: "first_is (ms (Star (Cls is_space)) (Some (last ''=''), ws2 @ ?t4))
             (prev_after (Some (last ''='')) ws2, ?t4)"
    using ws(2) by (rule first_Star_cls) (simp add: not_space_eq)
  have 5: "first_is (ms (lit_ci ''{'') (prev_after (Some (last ''='')) ws2, ''{'' @ s))
             (Some (last ''{''), s)"
    by (rule first_lit_ci_last) simp_all
  have "first_is (ms (Seq (lit_ci field) (Seq (Star (Cls is_space)) (Seq (lit_ci ''='')
                  (Seq (Star (Cls is_space)) (lit_ci ''{'')))))
                (p, nm @ ?t1)) (Some (last ''{''), s)"
    by (rule first_Seq [OF 1 first_Seq [OF 2 first_Seq [OF 3 first_Seq [OF 4 5]]]])
  then show ?thesis by simp
qed

lemma rx_exec_field:
  assumes nm: "map to_upper nm = map to_upper field"
    and ws: "\<forall>c \<in> set ws1. is_space c" "\<forall>c \<in> set ws2. is_space c"
    and content: "content \<noteq> []" "CHR ''}'' \<notin> set content"
  shows "rx_exec (field_rx field) (p, (nm @ ws1 @ ''='' @ ws2 @ ''{'') @ content @ ''}'' @ rest)
           = Some ([nm @ ws1 @ ''='' @ ws2 @ ''{'', content, ''}''], (Some CHR ''}'', rest))"
proof -
  let ?head = "nm @ ws1 @ ''='' @ ws2 @ ''{''"
  have 1: "first_is
           (ms (Seq (lit_ci field) (Seq (Star (Cls is_space)) (Seq (lit_ci ''='')
                  (Seq (Star (Cls is_space)) (lit_ci ''{'')))))
               (p, ?head @ content @ ''}'' @ rest))
           (Some CHR ''{'', content @ ''}'' @ rest)"
    using nm ws by (rule first_field_head)
  have 2: "first_is (ms (plus (Cls (\<lambda>c. c \<noteq> CHR ''}''))) (Some CHR ''{'', content @ ''}'' @ rest))
             (Some (last content), ''}'' @ rest)"
    using content by (intro first_plus_cls_last) auto
  have 3: "first_is (ms (lit_ci ''}'') (Some (last content), ''}'' @ rest)) (Some (last ''}''), rest)"
    by (rule first_lit_ci_last) simp_all
  have "rx_exec [Seq (lit_ci field) (Seq (Star (Cls is_space)) (Seq (lit_ci ''='')
                  (Seq (Star (Cls is_space)) (lit_ci ''{'')))),
                 plus (Cls (\<lambda>c. c \<noteq> CHR ''}'')), lit_ci ''}'']
          (p, ?head @ content @ ''}'' @ rest)
          = Some ([?head, content, ''}''], (Some (last ''}''), rest))"
    by (rule rx_exec_Cons_app [OF 1 rx_exec_Cons_app [OF 2 rx_exec_single_app [OF 3]]])
  then show ?thesis
    unfolding field_rx_def by simp
qed


text \<open>The definitions that evaluate a pattern on a given text.\<close>

lemmas char_classes =
  is_space_def is_line_terminator_def is_upper_def is_lower_def is_digit_def is_word_def
  not_brace_def to_upper_def

lemmas rx_eval =
  char_classes at_bol_def at_eol_def at_wordb_def word_before_def word_after_def
  rx_exec_def replacing_def consumed_def plus_def opt_def gsub.simps matcher_simps

section \<open>What a match implies\<close>














section \<open>Properties of the raw text assembly\<close>

definition block_text :: "string \<Rightarrow> string" where
  "block_text part = (if trim part = [] then [] else trim part @ [CHR 0x0A])"

lemma trim_Nil [simp]: "trim [] = []"
  by (simp add: trim_def)

lemma append_part_block:
  assumes "bib = [] \<or> ends_with_newline bib"
  shows "append_part bib part = bib @ block_text part"
  using assms by (auto simp: append_part_def block_text_def Let_def)

lemma block_text_ends:
  "block_text part = [] \<or> ends_with_newline (block_text part)"
  by (simp add: block_text_def ends_with_newline_def)

lemma ends_with_newline_append:
  assumes "a = [] \<or> ends_with_newline a" and "b = [] \<or> ends_with_newline b"
  shows "a @ b = [] \<or> ends_with_newline (a @ b)"
  using assms by (auto simp: ends_with_newline_def)

lemma fetch_bib_loop_blocks:
  assumes "map (fetchBibForKeys srv) cs = map Inr bodies"
    and "bib = [] \<or> ends_with_newline bib"
  shows "fetch_bib_loop srv cs bib = Inr (bib @ concat (map block_text bodies))"
  using assms
proof (induction cs arbitrary: bib bodies)
  case Nil
  then show ?case by simp
next
  case (Cons c cs)
  then obtain b bs where bodies: "bodies = b # bs"
    and b: "fetchBibForKeys srv c = Inr b"
    and bs: "map (fetchBibForKeys srv) cs = map Inr bs"
    by (cases bodies) auto
  have step: "append_part bib b = bib @ block_text b"
    using Cons.prems(2) by (rule append_part_block)
  have inv: "bib @ block_text b = [] \<or> ends_with_newline (bib @ block_text b)"
    using Cons.prems(2) block_text_ends by (rule ends_with_newline_append)
  show ?case
    using Cons.IH [OF bs, of "bib @ block_text b"] inv
    by (simp add: b step bodies)
qed

lemma concat_block_text:
  "concat (map block_text bodies) =
     concat (map (\<lambda>p. trim p @ [CHR 0x0A]) (filter (\<lambda>p. trim p \<noteq> []) bodies))"
  by (induction bodies) (simp_all add: block_text_def)

lemma concat_blocks_ends:
  "concat (map block_text bodies) = [] \<or> ends_with_newline (concat (map block_text bodies))"
proof (induction bodies)
  case Nil
  then show ?case by simp
next
  case (Cons b bs)
  show ?case
    using ends_with_newline_append [OF block_text_ends Cons.IH] by simp
qed

lemma trim_no_outer_space:
  assumes "trim p \<noteq> []"
  shows "\<not> is_space (hd (trim p)) \<and> \<not> is_space (last (trim p))"
proof -
  let ?d = "dropWhile is_space p"
  let ?r = "dropWhile is_space (rev ?d)"
  have r: "?r \<noteq> []" using assms by (simp add: trim_def)
  have d: "?d \<noteq> []"
  proof
    assume e: "?d = []"
    have "?r = []" unfolding e by simp
    with r show False by blast
  qed
  have l: "\<not> is_space (hd ?r)" using r by (rule hd_dropWhile)
  have "\<not> is_space (hd ?d)" using d by (rule hd_dropWhile)
  moreover have "last (rev ?r) = hd ?r" using r by (simp add: last_rev)
  moreover have "hd (rev ?r) = hd ?d"
  proof -
    have "last ?r = last (rev ?d)"
      using r by (metis last_appendR takeWhile_dropWhile_id)
    then show ?thesis using r d by (simp add: hd_rev last_rev)
  qed
  ultimately show ?thesis using l by (simp add: trim_def)
qed

text \<open>
  C7. For every list of batch bodies that the service returns, the assembled text is the
  concatenation, in fetch order, of the trimmed text of each block that is not empty after
  trimming, each followed by one newline. A trimmed block neither begins nor ends with
  white space, so one newline and no more separates consecutive blocks; the text ends in a
  newline as soon as one block is not empty, and blocks that are empty or white space only
  add nothing.
\<close>

theorem raw_bib_assembly:
  assumes "map (fetchBibForKeys srv) (chunks 50 keys) = map Inr bodies"
  shows "fetch_raw_bib srv keys =
           Inr (concat (map (\<lambda>p. trim p @ [CHR 0x0A]) (filter (\<lambda>p. trim p \<noteq> []) bodies)))
         \<and> (\<forall>raw. fetch_raw_bib srv keys = Inr raw \<longrightarrow>
              ((\<exists>p \<in> set bodies. trim p \<noteq> []) \<longrightarrow> ends_with_newline raw) \<and>
              ((\<forall>p \<in> set bodies. trim p = []) \<longrightarrow> raw = []))
         \<and> (\<forall>p \<in> set bodies. trim p \<noteq> [] \<longrightarrow>
              \<not> is_space (hd (trim p)) \<and> \<not> is_space (last (trim p)))"
proof -
  have raw: "fetch_raw_bib srv keys = Inr (concat (map block_text bodies))"
    using fetch_bib_loop_blocks [OF assms, of "[]"] by (simp add: fetch_raw_bib_def)
  have nonempty: "concat (map block_text bodies) \<noteq> []" if "p \<in> set bodies" "trim p \<noteq> []" for p
    using that by (auto simp: block_text_def)
  have empty: "concat (map block_text bodies) = []" if "\<forall>p \<in> set bodies. trim p = []"
    using that by (simp add: block_text_def)
  show ?thesis
    using raw concat_blocks_ends nonempty empty trim_no_outer_space
    by (auto simp: concat_block_text)
qed


theorem raw_bib_assembly_witness:
  "map (fetchBibForKeys (\<lambda>j. if j = ''K'' then Inr ''  '' else Inr ('' @a{x,} '' @ [CHR 0x0A, CHR 0x0A])))
       (chunks 50 (replicate 51 ''K'')) = map Inr ['' @a{x,} '' @ [CHR 0x0A, CHR 0x0A], ''  '']
   \<and> fetch_raw_bib (\<lambda>j. if j = ''K'' then Inr ''  '' else Inr ('' @a{x,} '' @ [CHR 0x0A, CHR 0x0A]))
       (replicate 51 ''K'') = Inr (''@a{x,}'' @ [CHR 0x0A])"
proof -
  let ?srv = "\<lambda>j. if j = ''K'' then Inr ''  '' else Inr ('' @a{x,} '' @ [CHR 0x0A, CHR 0x0A])"
  have c: "chunks 50 (replicate 51 ''K'') = [replicate 50 ''K'', [''K'']]"
    by (simp add: chunks.simps)
  have h: "map (fetchBibForKeys ?srv) (chunks 50 (replicate 51 ''K''))
             = map Inr ['' @a{x,} '' @ [CHR 0x0A, CHR 0x0A], ''  '']"
    unfolding c by (simp add: fetchBibForKeys_def Let_def) code_simp
  show ?thesis
    using raw_bib_assembly [OF h] h by (simp add: trim_def is_space_def)
qed

section \<open>Properties of the index builder\<close>

lemma split_on_nonempty: "split_on sep s \<noteq> []"
  by (induction s) (auto split: list.splits)

lemma split_on_no_sep: "sep \<notin> set s \<Longrightarrow> split_on sep s = [s]"
  by (induction s) auto

lemma split_on_sep: "sep \<in> set s \<Longrightarrow> tl (split_on sep s) \<noteq> []"
  by (induction s) (auto simp: split_on_nonempty split: list.splits)

lemma last_split_on:
  "last (split_on sep s) = rev (takeWhile (\<lambda>c. c \<noteq> sep) (rev s))"
proof (induction s)
  case Nil
  then show ?case by simp
next
  case (Cons c s)
  show ?case
  proof (cases "c = sep")
    case True
    then show ?thesis
      using Cons.IH by (simp add: split_on_nonempty takeWhile_append)
  next
    case False
    show ?thesis
    proof (cases "sep \<in> set s")
      case True
      then obtain w v vs where sp: "split_on sep s = w # v # vs"
        using split_on_sep [OF True] split_on_nonempty [of sep s]
        by (cases "split_on sep s"; cases "tl (split_on sep s)") auto
      have "takeWhile (\<lambda>c. c \<noteq> sep) (rev s @ [c]) = takeWhile (\<lambda>c. c \<noteq> sep) (rev s)"
        using True by (auto simp: takeWhile_append)
      then show ?thesis using Cons.IH False sp by simp
    next
      case no: False
      then have tw: "takeWhile (\<lambda>c. c \<noteq> sep) (rev s @ [c]) = rev s @ [c]"
        using False by (simp add: takeWhile_append)
      have sp: "split_on sep (c # s) = [c # s]"
        using False no by (simp add: split_on_no_sep)
      show ?thesis unfolding sp by (simp add: tw)
    qed
  qed
qed

lemma item_key_string:
  "csl_id it = IdString s \<Longrightarrow> item_key it = Some (rev (takeWhile (\<lambda>c. c \<noteq> CHR ''/'') (rev s)))"
  by (simp add: item_key_def pop_def split_on_nonempty last_split_on)

lemma item_key_not_string:
  "csl_id it = IdMissing \<or> csl_id it = IdNotString \<Longrightarrow> item_key it = Some []"
  by (auto simp: item_key_def pop_def)

lemma index_step_dropped: "item_key it = Some [] \<Longrightarrow> index_step ix it = ix"
  by (simp add: index_step_def)

lemma index_step_kept:
  assumes "item_key it = Some key" "key \<noteq> []"
  shows "itemKeys (index_step ix it) = itemKeys ix @ [key]"
    and "pinnedMap (index_step ix it) =
           (case pinnedFromNote (csl_note it) of
              None \<Rightarrow> pinnedMap ix
            | Some pinned \<Rightarrow> if pinned \<noteq> [] then (pinnedMap ix)(key \<mapsto> pinned) else pinnedMap ix)"
    and "typeHints (index_step ix it) =
           (case csl_type it of
              None \<Rightarrow> typeHints ix
            | Some t \<Rightarrow> if t \<noteq> [] then (typeHints ix)(key \<mapsto> t) else typeHints ix)"
  using assms by (auto simp: index_step_def Let_def split: option.splits)

lemma item_key_Some: "\<exists>key. item_key it = Some key"
  by (simp add: item_key_def pop_def split_on_nonempty)

lemma index_ok_step: "index_ok ix \<Longrightarrow> index_ok (index_step ix it)"
proof -
  assume ok: "index_ok ix"
  obtain key where k: "item_key it = Some key" using item_key_Some by blast
  show ?thesis
  proof (cases "key = []")
    case True
    then show ?thesis using ok k by (simp add: index_step_dropped)
  next
    case False
    show ?thesis
      using ok False index_step_kept [OF k False, of ix]
      by (auto simp: index_ok_def ran_def split: option.splits if_splits)
  qed
qed

lemma index_ok_foldl: "index_ok ix \<Longrightarrow> index_ok (foldl index_step ix items)"
  by (induction items arbitrary: ix) (simp_all add: index_ok_step)

lemma index_ok_build: "index_ok (build_index items)"
  unfolding build_index_def by (rule index_ok_foldl) (simp add: index_ok_def empty_index_def)

text \<open>
  C8. The item key of an entry is the text of its \<^verbatim>\<open>id\<close> after the last \<^verbatim>\<open>/\<close>
  (\<^verbatim>\<open>12345/ABCDEF12\<close> gives \<^verbatim>\<open>ABCDEF12\<close>). An entry whose \<^verbatim>\<open>id\<close> is missing, is not a
  string or gives an empty key is dropped: the index built from a list with that entry is
  the index built from the list without it, so the same keys are fetched and the same text
  is written; the empty key is never listed, pinned or given a type hint.
\<close>

theorem dropped_entry_invariant:
  "(csl_id it = IdString s \<longrightarrow>
      item_key it = Some (rev (takeWhile (\<lambda>c. c \<noteq> CHR ''/'') (rev s))))
   \<and> item_key \<lparr>csl_id = IdString ''12345/ABCDEF12'', csl_note = n, csl_type = t\<rparr> = Some ''ABCDEF12''
   \<and> (csl_id it = IdMissing \<or> csl_id it = IdNotString \<or> item_key it = Some [] \<longrightarrow>
        build_index (xs @ it # ys) = build_index (xs @ ys)
        \<and> fetch_raw_bib srv (itemKeys (build_index (xs @ it # ys)))
            = fetch_raw_bib srv (itemKeys (build_index (xs @ ys)))
        \<and> rewrite (build_index (xs @ it # ys)) bib = rewrite (build_index (xs @ ys)) bib)
   \<and> [] \<notin> set (itemKeys (build_index items))
   \<and> pinnedMap (build_index items) [] = None
   \<and> typeHints (build_index items) [] = None"
proof -
  have drop: "build_index (xs @ it # ys) = build_index (xs @ ys)" if "item_key it = Some []"
    using that by (simp add: build_index_def index_step_dropped)
  have ex: "item_key \<lparr>csl_id = IdString ''12345/ABCDEF12'', csl_note = n, csl_type = t\<rparr> = Some ''ABCDEF12''"
    by (simp add: item_key_def pop_def)
  show ?thesis
    using drop item_key_string [of it s] item_key_not_string [of it] ex index_ok_build [of items]
    by (auto simp: index_ok_def)
qed

theorem dropped_entry_invariant_witness:
  "item_key \<lparr>csl_id = IdString ''12345/'', csl_note = Some ''Citation Key: A'', csl_type = Some ''book''\<rparr> = Some []
   \<and> build_index ([\<lparr>csl_id = IdString ''1/K'', csl_note = None, csl_type = Some ''book''\<rparr>]
        @ \<lparr>csl_id = IdString ''12345/'', csl_note = Some ''Citation Key: A'', csl_type = Some ''book''\<rparr>
        # [\<lparr>csl_id = IdMissing, csl_note = None, csl_type = None\<rparr>])
     = build_index [\<lparr>csl_id = IdString ''1/K'', csl_note = None, csl_type = Some ''book''\<rparr>]"
proof -
  let ?bad = "\<lparr>csl_id = IdString ''12345/'', csl_note = Some ''Citation Key: A'', csl_type = Some ''book''\<rparr>"
  let ?bad2 = "\<lparr>csl_id = IdMissing, csl_note = None, csl_type = None\<rparr>"
  let ?good = "\<lparr>csl_id = IdString ''1/K'', csl_note = None, csl_type = Some ''book''\<rparr>"
  have k: "item_key ?bad = Some []" by (simp add: item_key_def pop_def)
  have "build_index ([?good] @ ?bad # [?bad2]) = build_index ([?good] @ [?bad2])"
    using dropped_entry_invariant [of ?bad "[]" n t "[?good]" "[?bad2]"] k by blast
  moreover have "build_index ([?good] @ ?bad2 # []) = build_index ([?good] @ [])"
    using dropped_entry_invariant [of ?bad2 "[]" n t "[?good]" "[]"] by simp
  ultimately show ?thesis using k by simp
qed

section \<open>The script and the action agree\<close>

lemma typeMap_get_undefined: "typeMap_get ''undefined'' = Undefined"
  by (simp add: typeMap_get_def typeMap_def object_prototype_def)

lemma typeMap_get_empty: "typeMap_get [] = Undefined"
  by (simp add: typeMap_get_def typeMap_def object_prototype_def)

lemma header_callback_mjs_eq: "header_callback_mjs ix = header_callback ix"
proof
  fix gs
  have "typeMap_get (to_string (map_get (typeHints ix) k))
          = typeMap_get (to_string (js_or (map_get (typeHints ix) k) (JString [])))" for k
    by (cases "typeHints ix k")
       (simp_all add: map_get_def js_or_def typeMap_get_undefined typeMap_get_empty)
  then show "header_callback_mjs ix gs = header_callback ix gs"
    by (simp add: header_callback_mjs_def header_callback_def)
qed

lemma index_step_mjs_eq: "index_step_mjs = index_step"
  by (intro ext) (simp add: index_step_mjs_def index_step_def)

text \<open>
  C9. The script and the action compute the same thing: from every list of entries the
  same pinned keys, type hints and item keys, from every raw text and every index the same
  rewritten text, and hence the same run.
\<close>

theorem two_file_equivalence:
  "build_index_mjs cslItems = build_index cslItems
   \<and> rewrite_mjs ix bib = rewrite ix bib
   \<and> run_mjs csl bibsrv = run csl bibsrv"
proof -
  have b: "build_index_mjs = build_index"
    by (intro ext) (simp add: build_index_mjs_def build_index_def index_step_mjs_eq)
  have h: "header_rewrite_mjs ix = header_rewrite ix" for ix
    by (intro ext)
       (simp add: header_rewrite_mjs_def header_rewrite_def header_matcher_def header_callback_mjs_eq)
  have j: "journal_rename_mjs = journal_rename"
    by (intro ext) (simp add: journal_rename_mjs_def journal_rename_def journal_matcher_def)
  have r: "rewrite_mjs = rewrite"
    by (intro ext) (simp add: rewrite_mjs_def rewrite_def h j)
  have "run_mjs csl bibsrv = run csl bibsrv"
    unfolding run_mjs_def run_def b r by (rule refl)
  then show ?thesis
    by (simp add: b r)
qed

theorem two_file_equivalence_witness:
  "rewrite_mjs (build_index_mjs [\<lparr>csl_id = IdString ''1/KEY1'', csl_note = Some ''Citation Key: Pinned1'', csl_type = Some ''webpage''\<rparr>])
      (''@webpage{KEY1,'' @ [CHR 0x0A] @ ''  title = {An HTML Guide},'' @ [CHR 0x0A] @ ''  journal = {Web},'' @ [CHR 0x0A] @ ''}'')
   = rewrite (build_index [\<lparr>csl_id = IdString ''1/KEY1'', csl_note = Some ''Citation Key: Pinned1'', csl_type = Some ''webpage''\<rparr>])
      (''@webpage{KEY1,'' @ [CHR 0x0A] @ ''  title = {An HTML Guide},'' @ [CHR 0x0A] @ ''  journal = {Web},'' @ [CHR 0x0A] @ ''}'')"
  using two_file_equivalence by simp

section \<open>Properties of the collection fetcher\<close>

lemma fetch_pages_run:
  assumes "pages_ok srv start (length acc) rs"
  shows "fetch_pages srv start acc requested =
           Some (requested @ offsets start rs, Inr (acc @ concat (map (\<lambda>r. normalizeItems (body r)) rs)))"
  using assms
proof (induction rs arbitrary: start acc requested)
  case Nil
  then show ?case by simp
next
  case (Cons r rs)
  let ?page = "normalizeItems (body r)"
  from Cons.prems have srv: "fetchJSON srv start = Inr r"
    by (simp add: fetchJSON_def)
  show ?case
  proof (cases "rs = []")
    case True
    with Cons.prems have "stops r (length (acc @ ?page))" by (simp add: Let_def)
    then show ?thesis
      using True srv by (subst fetch_pages.simps) (simp add: stops_def Let_def)
  next
    case False
    with Cons.prems have ns: "\<not> stops r (length (acc @ ?page))"
      and rest: "pages_ok srv (start + length ?page) (length (acc @ ?page)) rs"
      by (simp_all add: Let_def)
    show ?thesis
      using ns srv Cons.IH [OF rest, of "requested @ [start]"]
      by (subst fetch_pages.simps) (simp add: stops_def Let_def)
  qed
qed

lemma digit_table:
  "\<forall>d \<in> set [0..<10]. is_digit (''0123456789'' ! d) \<and> \<not> is_space (''0123456789'' ! d)
      \<and> ''0123456789'' ! d \<noteq> CHR ''+'' \<and> ''0123456789'' ! d \<noteq> CHR ''-''
      \<and> digit_value (''0123456789'' ! d) = d"
  by code_simp

lemma digit_char_props:
  "is_digit (digit_char k) \<and> \<not> is_space (digit_char k)
   \<and> digit_char k \<noteq> CHR ''+'' \<and> digit_char k \<noteq> CHR ''-''
   \<and> digit_value (digit_char k) = k mod 10"
proof -
  have "k mod 10 \<in> set [0..<10]" by simp
  then show ?thesis
    unfolding digit_char_def using digit_table by blast
qed

lemma show_nat_step:
  "show_nat n = (if n < 10 then [digit_char n] else show_nat (n div 10) @ [digit_char (n mod 10)])"
  by (rule show_nat.simps)

lemma show_nat_digits: "show_nat n \<noteq> [] \<and> (\<forall>c \<in> set (show_nat n). is_digit c)"
proof (induction n rule: show_nat.induct)
  case (1 n)
  show ?case
  proof (cases "n < 10")
    case True
    then show ?thesis by (simp add: show_nat_step [of n] digit_char_props)
  next
    case False
    then show ?thesis using 1 by (simp add: show_nat_step [of n] digit_char_props)
  qed
qed

lemma digits_value_snoc: "digits_value (ds @ [c]) = 10 * digits_value ds + digit_value c"
  by (simp add: digits_value_def)

lemma digits_value_show_nat: "digits_value (show_nat n) = n"
proof (induction n rule: show_nat.induct)
  case (1 n)
  show ?case
  proof (cases "n < 10")
    case True
    then show ?thesis by (simp add: show_nat_step [of n] digits_value_def digit_char_props)
  next
    case False
    then have "digits_value (show_nat (n div 10)) = n div 10" using 1 by simp
    then show ?thesis
      using False by (simp add: show_nat_step [of n] digits_value_snoc digit_char_props)
  qed
qed

lemma is_digit_not_space: "is_digit c \<Longrightarrow> \<not> is_space c \<and> c \<noteq> CHR ''+'' \<and> c \<noteq> CHR ''-''"
  by (auto simp: is_digit_def is_space_def)

lemma parseInt10_show_nat: "parseInt10 (show_nat n) = Some (int n)"
proof -
  obtain c cs where s: "show_nat n = c # cs" using show_nat_digits [of n] by (cases "show_nat n") auto
  have dig: "\<forall>x \<in> set (c # cs). is_digit x" using show_nat_digits [of n] s by simp
  then have c: "\<not> is_space c" "c \<noteq> CHR ''+''" "c \<noteq> CHR ''-''" using is_digit_not_space by auto
  have tw: "takeWhile is_digit (c # cs) = c # cs" using dig by (simp only: takeWhile_eq_all_conv)
  have "parseInt10 (c # cs) = Some (int (digits_value (c # cs)))"
    unfolding parseInt10_def using c tw by (simp add: Let_def)
  then show ?thesis using digits_value_show_nat [of n] by (simp add: s)
qed

lemma page_total_absent: "page_total None n = Some (int n)" "page_total (Some []) n = Some (int n)"
  by (simp_all add: page_total_def parseInt10_show_nat)

lemma parseInt10_340: "parseInt10 ''340'' = Some 340"
  by (simp add: parseInt10_def is_space_def is_digit_def digits_value_def digit_value_def Let_def)

text \<open>
  C3 (as amended). Starting at offset 0 and adding to the offset the number of entries of
  each page, the fetcher requests pages until a page has fewer than 100 entries or the
  number of entries received is at least the total the reply reports; it returns the
  pages' entries in order. A reply without the \<^verbatim>\<open>Total-Results\<close> header counts its own size
  as the total. When the pages have 100, 100, 100 and 40 entries and every reply reports
  the total 340, exactly the offsets 0, 100, 200 and 300 are requested.
\<close>

theorem collection_pagination:
  "(pages_ok srv 0 0 rs \<longrightarrow>
      fetchAllParentsCSL srv =
        Some (offsets 0 rs, Inr (concat (map (\<lambda>r. normalizeItems (body r)) rs))))
   \<and> (total_results r = None \<longrightarrow> page_total (total_results r) n = Some (int n))
   \<and> (srv 0 = Inr r1 \<and> srv 100 = Inr r2 \<and> srv 200 = Inr r3 \<and> srv 300 = Inr r4
      \<and> length (normalizeItems (body r1)) = 100 \<and> length (normalizeItems (body r2)) = 100
      \<and> length (normalizeItems (body r3)) = 100 \<and> length (normalizeItems (body r4)) = 40
      \<and> total_results r1 = Some ''340'' \<and> total_results r2 = Some ''340''
      \<and> total_results r3 = Some ''340'' \<and> total_results r4 = Some ''340'' \<longrightarrow>
      fetchAllParentsCSL srv =
        Some ([0, 100, 200, 300],
              Inr (normalizeItems (body r1) @ normalizeItems (body r2)
                   @ normalizeItems (body r3) @ normalizeItems (body r4))))"
proof (intro conjI impI)
  assume "pages_ok srv 0 0 rs"
  then show "fetchAllParentsCSL srv =
      Some (offsets 0 rs, Inr (concat (map (\<lambda>r. normalizeItems (body r)) rs)))"
    using fetch_pages_run [of srv 0 "[]" rs "[]"] by (simp add: fetchAllParentsCSL_def)
next
  assume "total_results r = None"
  then show "page_total (total_results r) n = Some (int n)"
    by (simp add: page_total_absent)
next
  assume a: "srv 0 = Inr r1 \<and> srv 100 = Inr r2 \<and> srv 200 = Inr r3 \<and> srv 300 = Inr r4
      \<and> length (normalizeItems (body r1)) = 100 \<and> length (normalizeItems (body r2)) = 100
      \<and> length (normalizeItems (body r3)) = 100 \<and> length (normalizeItems (body r4)) = 40
      \<and> total_results r1 = Some ''340'' \<and> total_results r2 = Some ''340''
      \<and> total_results r3 = Some ''340'' \<and> total_results r4 = Some ''340''"
  have t: "page_total (Some ''340'') k = Some 340" for k
    by (simp add: page_total_def parseInt10_340)
  have "pages_ok srv 0 0 [r1, r2, r3, r4]"
    using a by (simp add: stops_def reached_def t Let_def)
  then have "fetch_pages srv 0 [] [] =
      Some ([] @ offsets 0 [r1, r2, r3, r4],
            Inr ([] @ concat (map (\<lambda>r. normalizeItems (body r)) [r1, r2, r3, r4])))"
    using fetch_pages_run [of srv 0 "[]" "[r1, r2, r3, r4]" "[]"] by simp
  then show "fetchAllParentsCSL srv =
        Some ([0, 100, 200, 300],
              Inr (normalizeItems (body r1) @ normalizeItems (body r2)
                   @ normalizeItems (body r3) @ normalizeItems (body r4)))"
    using a by (simp add: fetchAllParentsCSL_def)
qed

theorem collection_pagination_witness:
  "pages_ok (paging_server (Some ''340'')) 0 0
     [paging_reply (Some ''340'') 0, paging_reply (Some ''340'') 100,
      paging_reply (Some ''340'') 200, paging_reply (Some ''340'') 300]
   \<and> fetchAllParentsCSL (paging_server (Some ''340'')) =
       Some ([0, 100, 200, 300], Inr (replicate 340 blank_item))"
proof -
  have t: "page_total (Some ''340'') k = Some 340" for k
    by (simp add: page_total_def parseInt10_340)
  have p: "pages_ok (paging_server (Some ''340'')) 0 0
     [paging_reply (Some ''340'') 0, paging_reply (Some ''340'') 100,
      paging_reply (Some ''340'') 200, paging_reply (Some ''340'') 300]"
    by (simp add: paging_server_def paging_reply_def stops_def reached_def t Let_def)
  let ?rs = "[paging_reply (Some ''340'') 0, paging_reply (Some ''340'') 100,
      paging_reply (Some ''340'') 200, paging_reply (Some ''340'') 300]"
  have "pages_ok (paging_server (Some ''340'')) 0 0 ?rs \<longrightarrow>
      fetchAllParentsCSL (paging_server (Some ''340'')) =
        Some (offsets 0 ?rs, Inr (concat (map (\<lambda>r. normalizeItems (body r)) ?rs)))"
    using collection_pagination [of "paging_server (Some ''340'')" ?rs] by (rule conjunct1)
  with p have "fetchAllParentsCSL (paging_server (Some ''340'')) =
        Some (offsets 0 ?rs, Inr (concat (map (\<lambda>r. normalizeItems (body r)) ?rs)))"
    by (rule rev_mp)
  moreover have "offsets 0 ?rs = [0, 100, 200, 300]"
    by (simp add: paging_reply_def)
  moreover have "concat (map (\<lambda>r. normalizeItems (body r)) ?rs) = replicate 340 blank_item"
    by (simp add: paging_reply_def replicate_add [symmetric])
  ultimately show ?thesis
    using p by simp
qed

text \<open>
  With pages of the same sizes and no \<^verbatim>\<open>Total-Results\<close> header, the first page already
  reaches its own size: a single request is made.
\<close>

theorem collection_pagination_counterexample:
  "fetchAllParentsCSL (paging_server None) = Some ([0], Inr (replicate 100 blank_item))"
proof -
  have "pages_ok (paging_server None) 0 0 [paging_reply None 0]"
    by (simp add: paging_server_def paging_reply_def stops_def reached_def page_total_absent Let_def)
  then show ?thesis
    using fetch_pages_run [of "paging_server None" 0 "[]" "[paging_reply None 0]" "[]"]
    by (simp add: fetchAllParentsCSL_def paging_reply_def)
qed

section \<open>Pass 2: the journal field\<close>

lemma journal_match:
  assumes "map to_upper nm = map to_upper ''journal''"
    and "\<forall>c \<in> set ws1. is_space c" and "\<forall>c \<in> set ws2. is_space c"
    and "content \<noteq> []" and "CHR ''}'' \<notin> set content"
  shows "journal_matcher (p, (nm @ ws1 @ ''='' @ ws2 @ ''{'') @ content @ ''}'' @ rest)
           = Some (''organization = {'' @ content @ ''}'', (Some CHR ''}'', rest))"
  unfolding journal_matcher_def replacing_def rx_exec_field [OF assms] by simp

text \<open>
  C4 (as amended). A field assignment \<^verbatim>\<open>journal = {<content>}\<close>, its name in any case,
  any white space around \<^verbatim>\<open>=\<close>, its content not empty and without a closing brace,
  that no earlier match of the pattern overlaps, is rewritten to
  \<^verbatim>\<open>organization = {<content>}\<close> with the same content; the text before it is kept and
  the pass goes on after it. Nothing in the pattern looks at the record around the field.
\<close>

theorem journal_rename_step:
  assumes "map to_upper nm = map to_upper ''journal''"
    and "\<forall>c \<in> set ws1. is_space c" and "\<forall>c \<in> set ws2. is_space c"
    and "content \<noteq> []" and "CHR ''}'' \<notin> set content"
    and "no_match_in journal_matcher p pre (nm @ ws1 @ ''='' @ ws2 @ ''{'' @ content @ ''}'' @ rest)"
  shows "gsub journal_matcher (p, pre @ nm @ ws1 @ ''='' @ ws2 @ ''{'' @ content @ ''}'' @ rest)
           = pre @ ''organization = {'' @ content @ ''}''
               @ gsub journal_matcher (Some CHR ''}'', rest)"
proof -
  let ?field = "(nm @ ws1 @ ''='' @ ws2 @ ''{'') @ content @ ''}'' @ rest"
  have m: "journal_matcher (prev_after p pre, ?field)
             = Some (''organization = {'' @ content @ ''}'', (Some CHR ''}'', rest))"
    using assms(1-5) by (rule journal_match)
  have "gsub journal_matcher (prev_after p pre, ?field)
          = (''organization = {'' @ content @ ''}'') @ gsub journal_matcher (Some CHR ''}'', rest)"
    using m by (rule gsub_match) simp
  moreover have "gsub journal_matcher (p, pre @ ?field)
          = pre @ gsub journal_matcher (prev_after p pre, ?field)"
    using assms(6) by (intro gsub_skip) simp
  ultimately show ?thesis by simp
qed

theorem journal_rename_step_witness:
  "map to_upper ''Journal'' = map to_upper ''journal''
   \<and> is_space CHR '' ''
   \<and> no_match_in journal_matcher None ''@a{b, '' (''Journal'' @ '' '' @ ''='' @ [] @ ''{'' @ ''Nature'' @ ''}'' @ '','')
   \<and> journal_rename ''@a{b, Journal ={Nature},'' = ''@a{b, organization = {Nature},''"
proof -
  have h1: "map to_upper ''Journal'' = map to_upper ''journal''" by (simp add: to_upper_def)
  have h2: "\<forall>c \<in> set '' ''. is_space c" by (simp add: is_space_def)
  have h3: "\<forall>c \<in> set []. is_space c" by simp
  have h4: "''Nature'' \<noteq> []" by simp
  have h5: "CHR ''}'' \<notin> set ''Nature''" by simp
  have h6: "no_match_in journal_matcher None ''@a{b, ''
              (''Journal'' @ '' '' @ ''='' @ [] @ ''{'' @ ''Nature'' @ ''}'' @ '','')"
    by (simp add: journal_matcher_def field_rx_def rx_eval)
  have r: "gsub journal_matcher (Some CHR ''}'', '','') = '',''"
    by (simp add: journal_matcher_def field_rx_def rx_eval)
  show ?thesis
    using journal_rename_step [OF h1 h2 h3 h4 h5 h6] h1 h2 h6 r
    by (simp add: journal_rename_def is_space_def)
qed

text \<open>An assignment with empty content has no closing brace in it and is not renamed.\<close>

theorem journal_rename_counterexample:
  "journal_rename ''journal = {}'' = ''journal = {}''"
  by (simp add: journal_rename_def journal_matcher_def field_rx_def rx_eval)

section \<open>Pass 1: keys and types of the headers\<close>

















section \<open>The cleaning of a field value\<close>









section \<open>Pass 4: the type field\<close>


lemma to_upper_close: "to_upper x = to_upper CHR ''}'' \<longleftrightarrow> x = CHR ''}''"
  by (auto simp: to_upper_def)


















section \<open>Pinned keys\<close>

























section \<open>Pass 3: acronyms\<close>

text \<open>
  C2. The loop over the field names runs the pattern of \<^verbatim>\<open>title\<close> first, and that pattern
  has nothing before the name: it matches inside \<^verbatim>\<open>booktitle\<close>, so the acronyms of a
  \<^verbatim>\<open>booktitle\<close> are wrapped by the pass for \<^verbatim>\<open>title\<close> and again by the pass for
  \<^verbatim>\<open>booktitle\<close>, whose content group now ends at the first closing brace just added.
  A \<^verbatim>\<open>title\<close> field gets the one pair of double braces; a field that is not in the list
  but whose name ends in a listed name, such as \<^verbatim>\<open>shorttitle\<close>, is changed as well.
\<close>

theorem protect_capitals_booktitle:
  "protectCapitalsInFields ''booktitle = {The NASA Program}'' default_fields
     = ''booktitle = {The {{{{NASA}}}} Program}''
   \<and> protectCapitalsInFields ''title = {The NASA Program}'' default_fields
     = ''title = {The {{NASA}} Program}''
   \<and> protectCapitalsInFields ''title = {A New Approach}'' default_fields
     = ''title = {A New Approach}''
   \<and> protectCapitalsInFields ''shorttitle = {NASA}'' default_fields
     = ''shorttitle = {{{NASA}}}''"
  by code_simp

end
